theory Spec2Isabelle
  imports Main
begin

section \<open>Python strings\<close>

text \<open>
  A Python \<^verbatim>\<open>str\<close> is a sequence of Unicode code points, and \<^verbatim>\<open>len\<close> counts code
  points. A code point is a natural number here; \<open>ascii\<close> turns an Isabelle string
  literal into the code points of its characters.
\<close>

type_synonym codepoint = nat
type_synonym str = "codepoint list"

definition ascii :: "string \<Rightarrow> str" where
  "ascii s = map of_char s"

text \<open>
  The characters that \<^verbatim>\<open>str.strip()\<close>, \<^verbatim>\<open>str.split()\<close> and the regular expression
  class \<^verbatim>\<open>\s\<close> treat as whitespace (CPython's \<^verbatim>\<open>_PyUnicode_IsWhitespace\<close>):
  U+0009..U+000D, U+001C..U+0020, U+0085, U+00A0, U+1680, U+2000..U+200A, U+2028,
  U+2029, U+202F, U+205F and U+3000.
\<close>

definition is_space :: "codepoint \<Rightarrow> bool" where
  "is_space c \<longleftrightarrow>
     (9 \<le> c \<and> c \<le> 13) \<or> (28 \<le> c \<and> c \<le> 32) \<or> c = 133 \<or> c = 160 \<or> c = 5760 \<or>
     (8192 \<le> c \<and> c \<le> 8202) \<or> c = 8232 \<or> c = 8233 \<or> c = 8239 \<or> c = 8287 \<or> c = 12288"

text \<open>\<^verbatim>\<open>s.strip()\<close>: whitespace removed at both ends.\<close>

definition str_strip :: "str \<Rightarrow> str" where
  "str_strip s = rev (dropWhile is_space (rev (dropWhile is_space s)))"

text \<open>
  \<^verbatim>\<open>s.split()\<close> with no separator: the maximal runs of characters that are not
  whitespace, in order; never an empty word.
\<close>

function str_split :: "str \<Rightarrow> str list" where
  "str_split s =
     (case dropWhile is_space s of
        [] \<Rightarrow> []
      | c # r \<Rightarrow>
          (c # takeWhile (\<lambda>x. \<not> is_space x) r) #
          str_split (dropWhile (\<lambda>x. \<not> is_space x) r))"
  by pat_completeness auto
termination
proof (relation "measure length")
  show "wf (measure length)" by simp
next
  fix s :: str and c r
  assume "dropWhile is_space s = c # r"
  then have "length (c # r) \<le> length s"
    by (metis length_dropWhile_le)
  moreover have "length (dropWhile (\<lambda>x. \<not> is_space x) r) \<le> length r"
    by (rule length_dropWhile_le)
  ultimately show "(dropWhile (\<lambda>x. \<not> is_space x) r, s) \<in> measure length"
    by simp
qed

declare str_split.simps [simp del]

text \<open>\<^verbatim>\<open>sep.join(words)\<close>.\<close>

fun str_join :: "str \<Rightarrow> str list \<Rightarrow> str" where
  "str_join sep [] = []"
| "str_join sep [w] = w"
| "str_join sep (w # v # ws) = w @ sep @ str_join sep (v # ws)"

text \<open>
  The expression \<^verbatim>\<open>" ".join(current_text_block.split())\<close> that
  \<^verbatim>\<open>extract_structured_sections\<close> applies to a block when it emits a record
  (``Normalize whitespace'').
\<close>

definition normalize_whitespace :: "str \<Rightarrow> str" where
  "normalize_whitespace s = str_join (ascii '' '') (str_split s)"

text \<open>\<^verbatim>\<open>s.endswith(suffix)\<close>.\<close>

definition str_endswith :: "str \<Rightarrow> str \<Rightarrow> bool" where
  "str_endswith s suffix \<longleftrightarrow>
     length suffix \<le> length s \<and> drop (length s - length suffix) s = suffix"

text \<open>\<^verbatim>\<open>sub in s\<close>: \<open>sub\<close> occurs in \<open>s\<close> as a contiguous run.\<close>

fun str_contains :: "str \<Rightarrow> str \<Rightarrow> bool" where
  "str_contains sub [] \<longleftrightarrow> sub = []"
| "str_contains sub (c # s) \<longleftrightarrow> take (length sub) (c # s) = sub \<or> str_contains sub s"

text \<open>
  \<^verbatim>\<open>s.split(sep)\<close> with a one-character separator: the pieces between the
  separators, empty pieces included; always at least one piece.
\<close>

fun str_split_on :: "codepoint \<Rightarrow> str \<Rightarrow> str list" where
  "str_split_on sep [] = [[]]"
| "str_split_on sep (c # s) =
     (if c = sep then [] # str_split_on sep s
      else (case str_split_on sep s of
              [] \<Rightarrow> [[c]]
            | w # ws \<Rightarrow> (c # w) # ws))"

subsection \<open>The Unicode character database\<close>

text \<open>
  \<^verbatim>\<open>str.isupper()\<close>, \<^verbatim>\<open>str.istitle()\<close>, \<^verbatim>\<open>str.lower()\<close> and the class \<^verbatim>\<open>\d\<close> read
  the interpreter's Unicode tables, which are not part of the repository. The
  classifiers take them as a parameter: \<open>decimal\<close> is the category Nd (what \<^verbatim>\<open>\d\<close>
  matches in a \<^verbatim>\<open>str\<close> pattern), \<open>uppercase\<close>, \<open>lowercase\<close> and \<open>titlecase\<close> are
  CPython's \<^verbatim>\<open>Py_UNICODE_ISUPPER\<close>, \<^verbatim>\<open>ISLOWER\<close> and \<^verbatim>\<open>ISTITLE\<close>, and \<open>lower\<close>
  is \<^verbatim>\<open>str.lower()\<close> on a whole string (its result can be longer than its
  argument, and one letter is lowered by context).
\<close>

record unicode =
  decimal :: "codepoint \<Rightarrow> bool"
  uppercase :: "codepoint \<Rightarrow> bool"
  lowercase :: "codepoint \<Rightarrow> bool"
  titlecase :: "codepoint \<Rightarrow> bool"
  lower :: "str \<Rightarrow> str"

text \<open>
  The tables cut down to ASCII: the digits 0-9, the letters A-Z and a-z, no
  titlecase letter; every other code point is uncased, no digit and left alone by
  \<open>lower\<close>. On strings of ASCII characters they are the interpreter's tables; the
  concrete runs below use only such strings.
\<close>

definition ascii_tables :: unicode where
  "ascii_tables =
     \<lparr>decimal = (\<lambda>c. 48 \<le> c \<and> c \<le> 57),
      uppercase = (\<lambda>c. 65 \<le> c \<and> c \<le> 90),
      lowercase = (\<lambda>c. 97 \<le> c \<and> c \<le> 122),
      titlecase = (\<lambda>c. False),
      lower = map (\<lambda>c. if 65 \<le> c \<and> c \<le> 90 then c + 32 else c)\<rparr>"

text \<open>
  \<^verbatim>\<open>s.isupper()\<close>, after \<^verbatim>\<open>unicode_isupper_impl\<close>: a string of one character is
  upper iff that character is; otherwise no character is lowercase or titlecase
  and some character is uppercase.
\<close>

definition str_isupper :: "unicode \<Rightarrow> str \<Rightarrow> bool" where
  "str_isupper U s =
     (case s of
        [] \<Rightarrow> False
      | [ch] \<Rightarrow> uppercase U ch
      | _ \<Rightarrow> \<not> list_ex (\<lambda>ch. lowercase U ch \<or> titlecase U ch) s \<and> list_ex (uppercase U) s)"

text \<open>
  \<^verbatim>\<open>s.istitle()\<close>, after \<^verbatim>\<open>unicode_istitle_impl\<close>: the loop carries
  \<^verbatim>\<open>previous_is_cased\<close> and \<^verbatim>\<open>cased\<close>; an uppercase or titlecase character must not
  follow a cased one, a lowercase character must.
\<close>

fun istitle_loop :: "unicode \<Rightarrow> bool \<Rightarrow> bool \<Rightarrow> str \<Rightarrow> bool" where
  "istitle_loop U previous_is_cased cased [] = cased"
| "istitle_loop U previous_is_cased cased (ch # s) =
     (if uppercase U ch \<or> titlecase U ch then
        (if previous_is_cased then False else istitle_loop U True True s)
      else if lowercase U ch then
        (if \<not> previous_is_cased then False else istitle_loop U True True s)
      else istitle_loop U False cased s)"

definition str_istitle :: "unicode \<Rightarrow> str \<Rightarrow> bool" where
  "str_istitle U s =
     (case s of
        [] \<Rightarrow> False
      | [ch] \<Rightarrow> titlecase U ch \<or> uppercase U ch
      | _ \<Rightarrow> istitle_loop U False False s)"

subsection \<open>Regular expressions\<close>

text \<open>
  The two patterns of the source use literals, character classes, the
  quantifiers \<^verbatim>\<open>*\<close>, \<^verbatim>\<open>+\<close> and \<^verbatim>\<open>{1,2}\<close> on single characters, grouping and \<^verbatim>\<open>|\<close>.
  \<open>One p\<close> is one character of the class \<open>p\<close>, \<open>Star p\<close> is \<^verbatim>\<open>p*\<close>.
\<close>

datatype regex =
  Eps
| One "codepoint \<Rightarrow> bool"
| Star "codepoint \<Rightarrow> bool"
| Seq regex regex
| Alt regex regex

definition Plus :: "(codepoint \<Rightarrow> bool) \<Rightarrow> regex" where
  "Plus p = Seq (One p) (Star p)"

definition Opt :: "regex \<Rightarrow> regex" where
  "Opt r = Alt r Eps"

definition Chr :: "string \<Rightarrow> regex" where
  "Chr s = foldr (\<lambda>c r. Seq (One (\<lambda>x. x = c)) r) (ascii s) Eps"

text \<open>
  The backtracking matcher as a list of successes: \<open>rmatch r s\<close> lists what is left
  of \<open>s\<close> after each way of matching \<open>r\<close> at its start, greedy choices first.
\<close>

fun star_rests :: "(codepoint \<Rightarrow> bool) \<Rightarrow> str \<Rightarrow> str list" where
  "star_rests p [] = [[]]"
| "star_rests p (c # s) = (if p c then star_rests p s @ [c # s] else [c # s])"

fun rmatch :: "regex \<Rightarrow> str \<Rightarrow> str list" where
  "rmatch Eps s = [s]"
| "rmatch (One p) s = (case s of [] \<Rightarrow> [] | c # r \<Rightarrow> if p c then [r] else [])"
| "rmatch (Star p) s = star_rests p s"
| "rmatch (Seq a b) s = concat (map (rmatch b) (rmatch a s))"
| "rmatch (Alt a b) s = rmatch a s @ rmatch b s"

text \<open>\<^verbatim>\<open>re.match(pattern, s)\<close> finds a match at the start of \<open>s\<close>.\<close>

definition re_match :: "regex \<Rightarrow> str \<Rightarrow> bool" where
  "re_match r s \<longleftrightarrow> rmatch r s \<noteq> []"

text \<open>
  \<^verbatim>\<open>re.search('^(...)$', s)\<close> with no flag: \<^verbatim>\<open>^\<close> holds at the start of the string
  only, so the search is a match at position 0; \<^verbatim>\<open>$\<close> holds at the end of the string
  and just before a newline that ends it.
\<close>

definition re_search_anchored :: "regex \<Rightarrow> str \<Rightarrow> bool" where
  "re_search_anchored r s \<longleftrightarrow> list_ex (\<lambda>rest. rest = [] \<or> rest = [10]) (rmatch r s)"

section \<open>The line classifier\<close>

text \<open>
  The pattern of \<^verbatim>\<open>is_title\<close>,
  \<^verbatim>\<open>^\s*(\d{1,2}\.|[A-Z]\.|\([a-z]\)|\([ivx]+\)|<U+2022>)\s+\<close>; \<^verbatim>\<open>re.match\<close> starts at
  position 0, where \<^verbatim>\<open>^\<close> holds.
\<close>

definition title_pattern :: "unicode \<Rightarrow> regex" where
  "title_pattern U =
     Seq (Star is_space)
       (Seq (Alt (Seq (One (decimal U)) (Seq (Opt (One (decimal U))) (Chr ''.'')))
            (Alt (Seq (One (\<lambda>c. 65 \<le> c \<and> c \<le> 90)) (Chr ''.''))
            (Alt (Seq (Chr ''('') (Seq (One (\<lambda>c. 97 \<le> c \<and> c \<le> 122)) (Chr '')'')))
            (Alt (Seq (Chr ''('') (Seq (Plus (\<lambda>c. c \<in> set (ascii ''ivx''))) (Chr '')'')))
                 (One (\<lambda>c. c = 8226))))))
          (Plus is_space))"

definition is_title :: "unicode \<Rightarrow> str \<Rightarrow> bool" where
  "is_title U line =
     (let stripped_line = str_strip line in
      if stripped_line = [] \<or> length stripped_line > 120 then False
      else if str_endswith stripped_line (ascii ''.'') then False
      else if re_match (title_pattern U) stripped_line then True
      else if length (str_split stripped_line) < 8 then
        (if str_isupper U stripped_line then True
         else if str_istitle U stripped_line then True
         else False)
      else False)"

definition junk_keywords :: "str list" where
  "junk_keywords = map ascii
     [''uin:'', ''irda'', ''regn. no.'', ''reg. no.'', ''cin:'', ''gstin'',
      ''subject matter of solicitation'', ''trade logo'', ''corporate office'',
      ''registered office'', ''toll-free'', ''website:'', ''e-mail'', ''.com'', ''.in'',
      ''confidential'', ''internal use'']"

text \<open>The pattern of \<^verbatim>\<open>is_junk\<close> between its anchors: \<^verbatim>\<open>page\s*\d+|\d+\s*of\s*\d+\<close>.\<close>

definition page_number_pattern :: "unicode \<Rightarrow> regex" where
  "page_number_pattern U =
     Alt (Seq (Chr ''page'') (Seq (Star is_space) (Plus (decimal U))))
         (Seq (Plus (decimal U))
           (Seq (Star is_space) (Seq (Chr ''of'') (Seq (Star is_space) (Plus (decimal U))))))"

definition is_junk :: "unicode \<Rightarrow> str \<Rightarrow> bool" where
  "is_junk U line =
     (let stripped_line = lower U (str_strip line) in
      if stripped_line = [] then True
      else if list_ex (\<lambda>keyword. str_contains keyword stripped_line) junk_keywords then True
      else if re_search_anchored (page_number_pattern U) stripped_line then True
      else False)"

section \<open>The section accumulator and the extraction driver\<close>

text \<open>
  A record of the output: the dictionary with the keys \<^verbatim>\<open>id\<close>, \<^verbatim>\<open>page_number\<close>,
  \<^verbatim>\<open>title\<close>, \<^verbatim>\<open>text\<close> and \<^verbatim>\<open>source\<close>.
\<close>

record section_record =
  id' :: str
  page_number :: int
  title :: str
  text' :: str
  source :: str

text \<open>
  The variables of \<^verbatim>\<open>extract_structured_sections\<close> that its loops assign.
  \<open>uuid_calls\<close> counts the calls of \<^verbatim>\<open>uuid.uuid4()\<close> so far: the random source is a
  parameter \<open>uuid4\<close>, whose value at \<open>k\<close> is the string of the \<open>k\<close>-th call.
\<close>

record locals =
  structured_data :: "section_record list"
  current_title :: str
  current_text_block :: str
  uuid_calls :: nat

text \<open>
  The dictionary that both places which emit a record build, and their
  \<^verbatim>\<open>structured_data.append({...})\<close>.
\<close>

definition new_section :: "(nat \<Rightarrow> str) \<Rightarrow> str \<Rightarrow> int \<Rightarrow> locals \<Rightarrow> section_record" where
  "new_section uuid4 pdf_path page_num st =
     \<lparr>id' = uuid4 (uuid_calls st),
      page_number = page_num + 1,
      title = current_title st,
      text' = normalize_whitespace (current_text_block st),
      source = pdf_path\<rparr>"

definition append_section :: "(nat \<Rightarrow> str) \<Rightarrow> str \<Rightarrow> int \<Rightarrow> locals \<Rightarrow> locals" where
  "append_section uuid4 pdf_path page_num st =
     st\<lparr>structured_data := structured_data st @ [new_section uuid4 pdf_path page_num st],
        uuid_calls := Suc (uuid_calls st)\<rparr>"

text \<open>The body of \<^verbatim>\<open>for line in lines\<close>.\<close>

definition line_step ::
  "unicode \<Rightarrow> (nat \<Rightarrow> str) \<Rightarrow> str \<Rightarrow> int \<Rightarrow> locals \<Rightarrow> str \<Rightarrow> locals" where
  "line_step U uuid4 pdf_path page_num st line =
     (if is_title U line then
        (let st1 = (if str_strip (current_text_block st) \<noteq> []
                    then append_section uuid4 pdf_path page_num st else st)
         in st1\<lparr>current_title := str_strip line, current_text_block := []\<rparr>)
      else if \<not> is_junk U line then
        st\<lparr>current_text_block := current_text_block st @ ascii '' '' @ str_strip line\<rparr>
      else st)"

fun lines_loop ::
  "unicode \<Rightarrow> (nat \<Rightarrow> str) \<Rightarrow> str \<Rightarrow> int \<Rightarrow> locals \<Rightarrow> str list \<Rightarrow> locals" where
  "lines_loop U uuid4 pdf_path page_num st [] = st"
| "lines_loop U uuid4 pdf_path page_num st (line # lines) =
     lines_loop U uuid4 pdf_path page_num (line_step U uuid4 pdf_path page_num st line) lines"

text \<open>
  The two assignments at the top of the page loop's body: the state in which the
  line loop of a page starts.
\<close>

definition page_entry :: "locals \<Rightarrow> locals" where
  "page_entry st =
     st\<lparr>current_title := ascii ''General Information'', current_text_block := []\<rparr>"

text \<open>``After the loop, save the last section from the page.''\<close>

definition page_exit :: "(nat \<Rightarrow> str) \<Rightarrow> str \<Rightarrow> int \<Rightarrow> locals \<Rightarrow> locals" where
  "page_exit uuid4 pdf_path page_num st =
     (if str_strip (current_text_block st) \<noteq> []
      then append_section uuid4 pdf_path page_num st else st)"

text \<open>
  The body of the page loop, on the text that the backend extracts for the page
  (\<^verbatim>\<open>page.get_text("text")\<close> or \<^verbatim>\<open>page.extract_text()\<close>).
\<close>

definition page_step ::
  "unicode \<Rightarrow> (nat \<Rightarrow> str) \<Rightarrow> str \<Rightarrow> locals \<Rightarrow> int \<Rightarrow> str \<Rightarrow> locals" where
  "page_step U uuid4 pdf_path st page_num page_text =
     (let lines = str_split_on 10 page_text
      in page_exit uuid4 pdf_path page_num
           (lines_loop U uuid4 pdf_path page_num (page_entry st) lines))"

text \<open>\<^verbatim>\<open>for page_num, page in enumerate(doc)\<close>, from the index \<open>page_num\<close> on.\<close>

fun pages_loop ::
  "unicode \<Rightarrow> (nat \<Rightarrow> str) \<Rightarrow> str \<Rightarrow> locals \<Rightarrow> int \<Rightarrow> str list \<Rightarrow> locals" where
  "pages_loop U uuid4 pdf_path st page_num [] = st"
| "pages_loop U uuid4 pdf_path st page_num (page_text # pages) =
     pages_loop U uuid4 pdf_path (page_step U uuid4 pdf_path st page_num page_text)
       (page_num + 1) pages"

text \<open>
  The module fixes \<^verbatim>\<open>PDF_LIBRARY\<close> when it is imported (the import fails when neither
  library is there). The document is the list of the texts of its pages, as the
  library in use extracts them.
\<close>

datatype pdf_library = Pymupdf | Pypdf2

definition initial_locals :: locals where
  "initial_locals =
     \<lparr>structured_data = [], current_title = [], current_text_block = [], uuid_calls = 0\<rparr>"

definition extract_structured_sections ::
  "unicode \<Rightarrow> (nat \<Rightarrow> str) \<Rightarrow> pdf_library \<Rightarrow> str \<Rightarrow> str list \<Rightarrow> section_record list" where
  "extract_structured_sections U uuid4 PDF_LIBRARY pdf_path doc =
     (case PDF_LIBRARY of
        Pymupdf \<Rightarrow> structured_data (pages_loop U uuid4 pdf_path initial_locals 0 doc)
      | Pypdf2 \<Rightarrow> structured_data (pages_loop U uuid4 pdf_path initial_locals 0 doc))"

section \<open>Notions used to state the properties\<close>

text \<open>
  What the properties below assume of the interpreter's tables. On ASCII
  characters they are the tables of \<open>ascii_tables\<close>; lowering an empty string, and
  only an empty string, gives the empty string, and lowering a string that does not
  end in whitespace gives no final newline.
\<close>

definition ascii_compatible :: "unicode \<Rightarrow> bool" where
  "ascii_compatible U \<longleftrightarrow>
     (\<forall>c < 128.
        decimal U c = decimal ascii_tables c \<and> uppercase U c = uppercase ascii_tables c \<and>
        lowercase U c = lowercase ascii_tables c \<and> titlecase U c = titlecase ascii_tables c) \<and>
     (\<forall>s. list_all (\<lambda>c. c < 128) s \<longrightarrow> lower U s = lower ascii_tables s)"

definition lower_wellformed :: "unicode \<Rightarrow> bool" where
  "lower_wellformed U \<longleftrightarrow>
     (\<forall>s. lower U s = [] \<longleftrightarrow> s = []) \<and>
     (\<forall>s. s \<noteq> [] \<longrightarrow> \<not> is_space (last s) \<longrightarrow> last (lower U s) \<noteq> 10)"

text \<open>A run of whitespace, possibly empty; a run of one or more decimal digits.\<close>

definition spaces :: "str \<Rightarrow> bool" where
  "spaces ws \<longleftrightarrow> list_all is_space ws"

definition digits :: "unicode \<Rightarrow> str \<Rightarrow> bool" where
  "digits U ds \<longleftrightarrow> ds \<noteq> [] \<and> list_all (decimal U) ds"

text \<open>
  The page-number lines as the specification words them: ``page <digits>'' and
  ``<digits> of <digits>'', the parts one space apart; and the junk predicate that
  the specification describes with them.
\<close>

definition page_number_line_spec :: "unicode \<Rightarrow> str \<Rightarrow> bool" where
  "page_number_line_spec U t \<longleftrightarrow>
     (\<exists>ds. t = ascii ''page '' @ ds \<and> digits U ds) \<or>
     (\<exists>d1 d2. t = d1 @ ascii '' of '' @ d2 \<and> digits U d1 \<and> digits U d2)"

definition is_junk_spec :: "unicode \<Rightarrow> str \<Rightarrow> bool" where
  "is_junk_spec U s \<longleftrightarrow>
     str_strip s = [] \<or>
     (\<exists>keyword \<in> set junk_keywords. \<exists>p q. lower U (str_strip s) = p @ keyword @ q) \<or>
     page_number_line_spec U (lower U (str_strip s))"

text \<open>
  The page-number lines that the pattern of the code matches in full: the parts
  are separated by any run of whitespace, the empty one included.
\<close>

definition page_number_line :: "unicode \<Rightarrow> str \<Rightarrow> bool" where
  "page_number_line U t \<longleftrightarrow>
     (\<exists>ws ds. t = ascii ''page'' @ ws @ ds \<and> spaces ws \<and> digits U ds) \<or>
     (\<exists>d1 w1 w2 d2. t = d1 @ w1 @ ascii ''of'' @ w2 @ d2 \<and>
        digits U d1 \<and> spaces w1 \<and> spaces w2 \<and> digits U d2)"

text \<open>The strings that a pattern matches in full.\<close>

primrec lang :: "regex \<Rightarrow> str set" where
  "lang Eps = {[]}"
| "lang (One p) = {w. \<exists>c. w = [c] \<and> p c}"
| "lang (Star p) = {w. list_all p w}"
| "lang (Seq a b) = {w. \<exists>u v. w = u @ v \<and> u \<in> lang a \<and> v \<in> lang b}"
| "lang (Alt a b) = lang a \<union> lang b"

text \<open>
  The classifiers on Python values. The annotation \<^verbatim>\<open>line: str\<close> is not enforced,
  and every operation of the two bodies raises when an operand has the wrong type.
  The values are those that the bodies handle (strings, numbers, booleans, the list
  that \<^verbatim>\<open>split()\<close> returns, a match object, \<^verbatim>\<open>None\<close>); a result is \<open>Inl\<close> of the
  exception raised or \<open>Inr\<close> of the value.
\<close>

datatype py_value =
  Str str | Num int | Bool bool | NoneValue | StrList "str list" | Match

datatype py_error = AttributeError | TypeError

definition py_bind :: "py_error + 'a \<Rightarrow> ('a \<Rightarrow> py_error + 'b) \<Rightarrow> py_error + 'b" where
  "py_bind m f = (case m of Inl e \<Rightarrow> Inl e | Inr v \<Rightarrow> f v)"

text \<open>The truth value of an object, as \<^verbatim>\<open>not\<close>, \<^verbatim>\<open>if\<close> and \<^verbatim>\<open>or\<close> test it.\<close>

fun truthy :: "py_value \<Rightarrow> bool" where
  "truthy (Str s) \<longleftrightarrow> s \<noteq> []"
| "truthy (Num i) \<longleftrightarrow> i \<noteq> 0"
| "truthy (Bool b) \<longleftrightarrow> b"
| "truthy NoneValue \<longleftrightarrow> False"
| "truthy (StrList ws) \<longleftrightarrow> ws \<noteq> []"
| "truthy Match \<longleftrightarrow> True"

text \<open>
  The string methods \<^verbatim>\<open>strip\<close>, \<^verbatim>\<open>lower\<close>, \<^verbatim>\<open>split\<close>, \<^verbatim>\<open>isupper\<close>, \<^verbatim>\<open>istitle\<close> and
  \<^verbatim>\<open>endswith\<close> with a string literal: only a string has them.
\<close>

fun py_strip :: "py_value \<Rightarrow> py_error + py_value" where
  "py_strip (Str s) = Inr (Str (str_strip s))"
| "py_strip _ = Inl AttributeError"

fun py_lower :: "unicode \<Rightarrow> py_value \<Rightarrow> py_error + py_value" where
  "py_lower U (Str s) = Inr (Str (lower U s))"
| "py_lower U _ = Inl AttributeError"

fun py_split :: "py_value \<Rightarrow> py_error + py_value" where
  "py_split (Str s) = Inr (StrList (str_split s))"
| "py_split _ = Inl AttributeError"

fun py_isupper :: "unicode \<Rightarrow> py_value \<Rightarrow> py_error + py_value" where
  "py_isupper U (Str s) = Inr (Bool (str_isupper U s))"
| "py_isupper U _ = Inl AttributeError"

fun py_istitle :: "unicode \<Rightarrow> py_value \<Rightarrow> py_error + py_value" where
  "py_istitle U (Str s) = Inr (Bool (str_istitle U s))"
| "py_istitle U _ = Inl AttributeError"

fun py_endswith :: "py_value \<Rightarrow> str \<Rightarrow> py_error + py_value" where
  "py_endswith (Str s) suffix = Inr (Bool (str_endswith s suffix))"
| "py_endswith _ suffix = Inl AttributeError"

text \<open>\<^verbatim>\<open>len(v)\<close>: of a string or a list; \<^verbatim>\<open>TypeError\<close> for an object without length.\<close>

fun py_len :: "py_value \<Rightarrow> py_error + py_value" where
  "py_len (Str s) = Inr (Num (int (length s)))"
| "py_len (StrList ws) = Inr (Num (int (length ws)))"
| "py_len _ = Inl TypeError"

text \<open>
  \<^verbatim>\<open>v > n\<close> and \<^verbatim>\<open>v < n\<close> for an integer literal \<open>n\<close>: a number (a boolean counts as
  0 or 1) is compared, anything else against an \<^verbatim>\<open>int\<close> is a \<^verbatim>\<open>TypeError\<close>.
\<close>

fun py_gt_int :: "py_value \<Rightarrow> int \<Rightarrow> py_error + py_value" where
  "py_gt_int (Num i) n = Inr (Bool (i > n))"
| "py_gt_int (Bool b) n = Inr (Bool ((if b then 1 else 0) > n))"
| "py_gt_int _ n = Inl TypeError"

fun py_lt_int :: "py_value \<Rightarrow> int \<Rightarrow> py_error + py_value" where
  "py_lt_int (Num i) n = Inr (Bool (i < n))"
| "py_lt_int (Bool b) n = Inr (Bool ((if b then 1 else 0) < n))"
| "py_lt_int _ n = Inl TypeError"

text \<open>
  \<^verbatim>\<open>keyword in v\<close> for a string literal \<open>keyword\<close>: a substring test on a string,
  membership in a list, \<^verbatim>\<open>TypeError\<close> on an object that is no container.
\<close>

fun py_contains :: "str \<Rightarrow> py_value \<Rightarrow> py_error + py_value" where
  "py_contains keyword (Str s) = Inr (Bool (str_contains keyword s))"
| "py_contains keyword (StrList ws) = Inr (Bool (keyword \<in> set ws))"
| "py_contains keyword _ = Inl TypeError"

text \<open>
  \<^verbatim>\<open>any(keyword in v for keyword in keywords)\<close>: the tests run in order and stop at
  the first that holds; an exception in a test leaves \<^verbatim>\<open>any\<close>.
\<close>

fun py_any_contains :: "str list \<Rightarrow> py_value \<Rightarrow> py_error + py_value" where
  "py_any_contains [] v = Inr (Bool False)"
| "py_any_contains (keyword # keywords) v =
     py_bind (py_contains keyword v)
       (\<lambda>found. if truthy found then Inr (Bool True) else py_any_contains keywords v)"

text \<open>
  \<^verbatim>\<open>re.match\<close> and the anchored \<^verbatim>\<open>re.search\<close> with a pattern that compiles: a match
  object or \<^verbatim>\<open>None\<close> on a string, \<^verbatim>\<open>TypeError\<close> on anything else.
\<close>

fun py_re_match :: "regex \<Rightarrow> py_value \<Rightarrow> py_error + py_value" where
  "py_re_match r (Str s) = Inr (if re_match r s then Match else NoneValue)"
| "py_re_match r _ = Inl TypeError"

fun py_re_search_anchored :: "regex \<Rightarrow> py_value \<Rightarrow> py_error + py_value" where
  "py_re_search_anchored r (Str s) = Inr (if re_search_anchored r s then Match else NoneValue)"
| "py_re_search_anchored r _ = Inl TypeError"

text \<open>
  The body of \<^verbatim>\<open>is_title\<close>, statement by statement. In
  \<^verbatim>\<open>not stripped_line or len(stripped_line) > 120\<close> the length is only taken when the
  first operand is false.
\<close>

definition is_title_dyn :: "unicode \<Rightarrow> py_value \<Rightarrow> py_error + py_value" where
  "is_title_dyn U line =
     py_bind (py_strip line) (\<lambda>stripped_line.
     py_bind (if \<not> truthy stripped_line then Inr (Bool True)
              else py_bind (py_len stripped_line) (\<lambda>n. py_gt_int n 120)) (\<lambda>empty_or_long.
     if truthy empty_or_long then Inr (Bool False)
     else py_bind (py_endswith stripped_line (ascii ''.'')) (\<lambda>ends.
     if truthy ends then Inr (Bool False)
     else py_bind (py_re_match (title_pattern U) stripped_line) (\<lambda>m.
     if truthy m then Inr (Bool True)
     else py_bind (py_split stripped_line) (\<lambda>words.
     py_bind (py_len words) (\<lambda>n.
     py_bind (py_lt_int n 8) (\<lambda>short.
     if truthy short then
       py_bind (py_isupper U stripped_line) (\<lambda>upper.
       if truthy upper then Inr (Bool True)
       else py_bind (py_istitle U stripped_line) (\<lambda>titlecased.
       if truthy titlecased then Inr (Bool True) else Inr (Bool False)))
     else Inr (Bool False))))))))"

text \<open>The body of \<^verbatim>\<open>is_junk\<close>, statement by statement.\<close>

definition is_junk_dyn :: "unicode \<Rightarrow> py_value \<Rightarrow> py_error + py_value" where
  "is_junk_dyn U line =
     py_bind (py_strip line) (\<lambda>stripped.
     py_bind (py_lower U stripped) (\<lambda>stripped_line.
     if \<not> truthy stripped_line then Inr (Bool True)
     else py_bind (py_any_contains junk_keywords stripped_line) (\<lambda>found.
     if truthy found then Inr (Bool True)
     else py_bind (py_re_search_anchored (page_number_pattern U) stripped_line) (\<lambda>m.
     if truthy m then Inr (Bool True) else Inr (Bool False)))))"

text \<open>
  A record without its \<^verbatim>\<open>id\<close>, and the records that one page emits when it is
  processed on its own, in the order in which it emits them.
\<close>

definition sans_id :: "section_record \<Rightarrow> int \<times> str \<times> str \<times> str" where
  "sans_id r = (page_number r, title r, text' r, source r)"

definition page_records :: "unicode \<Rightarrow> str \<Rightarrow> int \<Rightarrow> str \<Rightarrow> (int \<times> str \<times> str \<times> str) list" where
  "page_records U pdf_path page_num page_text =
     map sans_id
       (structured_data (page_step U (\<lambda>k. []) pdf_path initial_locals page_num page_text))"

text \<open>
  The page of the end-to-end example, its five lines joined by newlines, and a
  source of identifiers for the concrete runs.
\<close>

definition revenue_page :: str where
  "revenue_page =
     str_join [10]
       (map ascii [''REVENUE SUMMARY'', ''Total income was 500.'', ''Page 1'', ''1. Risks'',
          ''Risk text here.''])"

definition uuid4_sample :: "nat \<Rightarrow> str" where
  "uuid4_sample k = ascii ''uuid-'' @ [48 + k]"

definition uuid4_other :: "nat \<Rightarrow> str" where
  "uuid4_other k = ascii ''other-'' @ [48 + k]"

text \<open>
  The section accumulator as the specification words it (4.2), for one page: the
  list of the pairs of title and normalised text that it emits, in the order in
  which it emits them. A title line emits the pending section when its block is
  not blank and starts a new one; a line that is neither title nor junk is appended
  to the block after a space; the end of the page emits the pending section when
  its block is not blank.
\<close>

fun accumulator_spec :: "unicode \<Rightarrow> str \<Rightarrow> str \<Rightarrow> str list \<Rightarrow> (str \<times> str) list" where
  "accumulator_spec U pending_title block [] =
     (if str_strip block \<noteq> [] then [(pending_title, normalize_whitespace block)] else [])"
| "accumulator_spec U pending_title block (line # lines) =
     (if is_title U line then
        (if str_strip block \<noteq> [] then [(pending_title, normalize_whitespace block)] else []) @
        accumulator_spec U (str_strip line) [] lines
      else if \<not> is_junk U line then
        accumulator_spec U pending_title (block @ ascii '' '' @ str_strip line) lines
      else accumulator_spec U pending_title block lines)"

text \<open>
  What the specification has a page emit: the accumulator starts from the title
  ``General Information'' and an empty block, and each record carries the 1-based
  page number and the path. \<open>page_num\<close> is the 0-based index of the page.
\<close>

definition page_sections_spec ::
  "unicode \<Rightarrow> str \<Rightarrow> int \<Rightarrow> str \<Rightarrow> (int \<times> str \<times> str \<times> str) list" where
  "page_sections_spec U pdf_path page_num page_text =
     map (\<lambda>(section_title, section_text). (page_num + 1, section_title, section_text, pdf_path))
       (accumulator_spec U (ascii ''General Information'') [] (str_split_on 10 page_text))"

text \<open>
  Two more pages for the concrete runs: one that emits the same section twice, and
  one with content and no title.
\<close>

definition annex_page :: str where
  "annex_page = str_join [10] (map ascii [''NOTES'', ''see annex'', ''NOTES'', ''see annex''])"

definition plain_page :: str where
  "plain_page = ascii ''see annex''"

text \<open>
  Two states of the loops side by side: they hold the same title and block, and
  the records of the first are, their identifiers apart, \<open>pre\<close> followed by the
  records of the second.
\<close>

definition agree_sans_id :: "(int \<times> str \<times> str \<times> str) list \<Rightarrow> locals \<Rightarrow> locals \<Rightarrow> bool" where
  "agree_sans_id pre st st0 \<longleftrightarrow>
     map sans_id (structured_data st) = pre @ map sans_id (structured_data st0) \<and>
     current_title st = current_title st0 \<and>
     current_text_block st = current_text_block st0"

section \<open>Whitespace normalisation\<close>

lemma ascii_space: "ascii '' '' = [32]"
  by (simp add: ascii_def)

lemma is_space_32: "is_space 32"
  by (simp add: is_space_def)

lemma str_split_Nil: "str_split [] = []"
  by (simp add: str_split.simps)

lemma str_split_words:
  "w \<in> set (str_split s) \<Longrightarrow> w \<noteq> [] \<and> (\<forall>c \<in> set w. \<not> is_space c)"
proof (induction s rule: str_split.induct)
  case (1 s)
  show ?case
  proof (cases "dropWhile is_space s")
    case Nil
    with "1.prems" show ?thesis
      by (simp add: str_split.simps [of s])
  next
    case (Cons c r)
    then have c: "\<not> is_space c"
      by (metis hd_dropWhile list.distinct(1) list.sel(1))
    from "1.prems" Cons
    have "w = c # takeWhile (\<lambda>x. \<not> is_space x) r \<or>
          w \<in> set (str_split (dropWhile (\<lambda>x. \<not> is_space x) r))"
      by (simp add: str_split.simps [of s])
    then show ?thesis
    proof
      assume "w = c # takeWhile (\<lambda>x. \<not> is_space x) r"
      with c show ?thesis
        by (auto dest: set_takeWhileD)
    next
      assume "w \<in> set (str_split (dropWhile (\<lambda>x. \<not> is_space x) r))"
      with "1.IH" [OF Cons] show ?thesis .
    qed
  qed
qed

lemma str_split_word_append:
  assumes w: "w \<noteq> []" "\<forall>c \<in> set w. \<not> is_space c"
    and r: "r = [] \<or> is_space (hd r)"
  shows "str_split (w @ r) = w # str_split r"
proof -
  from w obtain c v where wv: "w = c # v"
    by (cases w) auto
  with w have c: "\<not> is_space c" and v: "\<forall>x \<in> set v. \<not> is_space x"
    by auto
  have d: "dropWhile is_space (c # v @ r) = c # (v @ r)"
    using c by simp
  have t: "takeWhile (\<lambda>x. \<not> is_space x) (v @ r) = v"
    using v r by (cases r) (auto simp: takeWhile_append2)
  have e: "dropWhile (\<lambda>x. \<not> is_space x) (v @ r) = r"
    using v r by (cases r) auto
  have "str_split (c # v @ r) = (c # v) # str_split r"
    by (subst str_split.simps) (simp only: d t e list.case)
  then show ?thesis
    by (simp add: wv)
qed

lemma str_split_skip_space: "is_space c \<Longrightarrow> str_split (c # s) = str_split s"
  by (simp add: str_split.simps [of "c # s"] str_split.simps [of s])

lemma str_split_join:
  "\<forall>w \<in> set ws. w \<noteq> [] \<and> (\<forall>c \<in> set w. \<not> is_space c) \<Longrightarrow>
   str_split (str_join [32] ws) = ws"
proof (induction ws)
  case Nil
  show ?case by (simp add: str_split_Nil)
next
  case (Cons w ws)
  then have w: "w \<noteq> []" "\<forall>c \<in> set w. \<not> is_space c"
    by simp_all
  show ?case
  proof (cases ws)
    case Nil
    have "str_split (w @ []) = w # str_split []"
      using w by (intro str_split_word_append) auto
    with Nil show ?thesis by (simp add: str_split_Nil)
  next
    case (Cons v vs)
    have "str_split (w @ (32 # str_join [32] ws)) = w # str_split (32 # str_join [32] ws)"
      using w by (intro str_split_word_append) (auto simp: is_space_32)
    also have "str_split (32 # str_join [32] ws) = str_split (str_join [32] ws)"
      by (rule str_split_skip_space) (rule is_space_32)
    also have "str_split (str_join [32] ws) = ws"
      using Cons.IH Cons.prems by simp
    finally show ?thesis
      using Cons by simp
  qed
qed

text \<open>
  C8. Whitespace normalisation as used when a record is emitted (split on runs of
  whitespace, join with single spaces) is idempotent: normalising a normalised
  string changes nothing.
\<close>

theorem normalize_whitespace_idempotent:
  "normalize_whitespace (normalize_whitespace s) = normalize_whitespace s"
  unfolding normalize_whitespace_def ascii_space
  by (simp add: str_split_join str_split_words)

section \<open>Evaluating the classifiers\<close>

lemma str_split_word:
  "\<not> is_space c \<Longrightarrow>
   str_split (c # s) =
     (c # takeWhile (\<lambda>x. \<not> is_space x) s) # str_split (dropWhile (\<lambda>x. \<not> is_space x) s)"
  by (simp add: str_split.simps [of "c # s"])

lemma ascii_compatible_tables:
  assumes "ascii_compatible U" "c < 128"
  shows "decimal U c \<longleftrightarrow> 48 \<le> c \<and> c \<le> 57"
    and "uppercase U c \<longleftrightarrow> 65 \<le> c \<and> c \<le> 90"
    and "lowercase U c \<longleftrightarrow> 97 \<le> c \<and> c \<le> 122"
    and "titlecase U c \<longleftrightarrow> False"
  using assms by (simp_all add: ascii_compatible_def ascii_tables_def)

lemma ascii_compatible_lower:
  assumes "ascii_compatible U" "list_all (\<lambda>c. c < 128) s"
  shows "lower U s = map (\<lambda>c. if 65 \<le> c \<and> c \<le> 90 then c + 32 else c) s"
  using assms by (simp add: ascii_compatible_def ascii_tables_def)

lemma ascii_compatible_ascii_tables: "ascii_compatible ascii_tables"
  by (simp add: ascii_compatible_def)

lemmas classifier_unfold =
  is_title_def is_junk_def Let_def ascii_def str_strip_def is_space_def str_endswith_def
  re_match_def re_search_anchored_def title_pattern_def page_number_pattern_def
  Chr_def Plus_def Opt_def str_split_word str_split_skip_space str_split_Nil
  str_isupper_def str_istitle_def junk_keywords_def

lemma line_revenue_summary:
  "ascii_compatible U \<Longrightarrow> is_title U (ascii ''REVENUE SUMMARY'')"
  by (simp add: classifier_unfold ascii_compatible_tables)

lemma line_total_income:
  "ascii_compatible U \<Longrightarrow>
   \<not> is_title U (ascii ''Total income was 500.'') \<and> \<not> is_junk U (ascii ''Total income was 500.'')"
  by (simp add: classifier_unfold ascii_compatible_tables ascii_compatible_lower)

lemma line_page_1:
  "ascii_compatible U \<Longrightarrow> is_title U (ascii ''Page 1'')"
  by (simp add: classifier_unfold ascii_compatible_tables)

lemma line_1_risks:
  "ascii_compatible U \<Longrightarrow> is_title U (ascii ''1. Risks'')"
  by (simp add: classifier_unfold ascii_compatible_tables)

lemma line_risk_text:
  "ascii_compatible U \<Longrightarrow>
   \<not> is_title U (ascii ''Risk text here.'') \<and> \<not> is_junk U (ascii ''Risk text here.'')"
  by (simp add: classifier_unfold ascii_compatible_tables ascii_compatible_lower)


lemma str_strip_Nil: "str_strip [] = []"
  by (simp add: str_strip_def)


section \<open>The title predicate\<close>

lemma dropWhile_last:
  "xs \<noteq> [] \<Longrightarrow> \<not> P (last xs) \<Longrightarrow> dropWhile P xs \<noteq> [] \<and> last (dropWhile P xs) = last xs"
  by (induction xs) auto

lemma str_strip_last:
  assumes "line \<noteq> []" "\<not> is_space (last line)"
  shows "str_strip line = dropWhile is_space line"
    and "str_strip line \<noteq> []"
    and "last (str_strip line) = last line"
proof -
  let ?d = "dropWhile is_space line"
  from assms have d: "?d \<noteq> []" "last ?d = last line"
    using dropWhile_last [of line is_space] by simp_all
  then have "\<not> is_space (hd (rev ?d))"
    using assms by (simp add: hd_rev)
  moreover have "rev ?d \<noteq> []" using d by simp
  ultimately have "dropWhile is_space (rev ?d) = rev ?d"
    by (cases "rev ?d") auto
  then show "str_strip line = ?d"
    by (simp add: str_strip_def)
  with d show "str_strip line \<noteq> []" "last (str_strip line) = last line"
    by simp_all
qed

lemma drop_to_last: "s \<noteq> [] \<Longrightarrow> drop (length s - 1) s = [last s]"
proof -
  assume "s \<noteq> []"
  then have "s = butlast s @ [last s]" by simp
  then have "drop (length (butlast s)) s = [last s]"
    by (metis append_eq_conv_conj)
  then show ?thesis by simp
qed

lemma str_endswith_last: "s \<noteq> [] \<Longrightarrow> str_endswith s [c] \<longleftrightarrow> last s = c"
proof -
  assume s: "s \<noteq> []"
  then have "1 \<le> length s"
    by (cases s) simp_all
  with drop_to_last [OF s] show ?thesis
    unfolding str_endswith_def by auto
qed

lemma ascii_dot: "ascii ''.'' = [46]"
  by (simp add: ascii_def)

text \<open>
  C7. A string whose last character is a full stop is never a title, whatever else
  it holds: neither the enumerator pattern nor the capitalisation tests are reached.
\<close>

theorem is_title_ends_with_period:
  "line \<noteq> [] \<Longrightarrow> last line = 46 \<Longrightarrow> \<not> is_title U line"
proof -
  assume line: "line \<noteq> []" "last line = 46"
  then have "\<not> is_space (last line)"
    by (simp add: is_space_def)
  then have "str_strip line \<noteq> []" "last (str_strip line) = last line"
    using line(1) by (rule_tac [!] str_strip_last)
  with line have "str_strip line \<noteq> []" "last (str_strip line) = 46"
    by simp_all
  then have "str_endswith (str_strip line) (ascii ''.'')"
    by (simp add: ascii_dot str_endswith_last)
  then show ?thesis
    by (simp add: is_title_def Let_def)
qed

theorem is_title_ends_with_period_witness:
  "ascii ''(a) Scope.'' \<noteq> [] \<and> last (ascii ''(a) Scope.'') = 46 \<and>
   \<not> is_title ascii_tables (ascii ''(a) Scope.'')"
  using is_title_ends_with_period [of "ascii ''(a) Scope.''" ascii_tables]
  by (simp add: ascii_def)

lemma is_title_strip_cong: "str_strip a = str_strip b \<Longrightarrow> is_title U a = is_title U b"
  by (simp add: is_title_def)

lemma str_strip_leading_spaces: "str_strip (replicate n 32 @ s) = str_strip s"
proof -
  have "dropWhile is_space (replicate n 32 @ s) = dropWhile is_space s"
    by (rule dropWhile_append2) (simp add: is_space_32)
  then show ?thesis
    by (simp add: str_strip_def)
qed

text \<open>
  C2, as amended. The length that \<^verbatim>\<open>is_title\<close> tests is that of the trimmed line:
  every line whose trimmed form is longer than 120 characters is no title.
\<close>

theorem is_title_long_stripped:
  "length (str_strip line) > 120 \<Longrightarrow> \<not> is_title U line"
  by (simp add: is_title_def Let_def)

theorem is_title_long_stripped_witness:
  "length (str_strip (replicate 121 65)) > 120 \<and> \<not> is_title ascii_tables (replicate 121 65)"
  using is_title_long_stripped [of "replicate 121 65" ascii_tables]
  by (simp add: str_strip_def is_space_def)

text \<open>
  The claim as stated fails: 119 spaces before ``AB'' make a string of 121
  characters that is a title, since its trimmed form ``AB'' is short and upper case.
\<close>

theorem is_title_long_padded_counterexample:
  "length (replicate 119 32 @ ascii ''AB'') > 120 \<and> replicate 119 32 @ ascii ''AB'' \<noteq> [] \<and>
   is_title ascii_tables (replicate 119 32 @ ascii ''AB'')"
proof -
  have "is_title ascii_tables (ascii ''AB'')"
    by (simp add: classifier_unfold ascii_compatible_tables [OF ascii_compatible_ascii_tables])
  then have "is_title ascii_tables (replicate 119 32 @ ascii ''AB'')"
    using is_title_strip_cong [OF str_strip_leading_spaces] by simp
  then show ?thesis
    by (simp add: ascii_def)
qed

section \<open>The junk predicate\<close>

lemma take_length_prefix: "take (length k) s = k \<longleftrightarrow> (\<exists>q. s = k @ q)"
proof
  assume "take (length k) s = k"
  then have "s = k @ drop (length k) s"
    by (metis append_take_drop_id)
  then show "\<exists>q. s = k @ q" ..
next
  assume "\<exists>q. s = k @ q"
  then show "take (length k) s = k" by auto
qed

lemma str_contains_iff: "str_contains k t \<longleftrightarrow> (\<exists>p q. t = p @ k @ q)"
proof (induction t)
  case Nil
  show ?case by auto
next
  case (Cons c t)
  have "(\<exists>p q. c # t = p @ k @ q) \<longleftrightarrow> (\<exists>q. c # t = k @ q) \<or> (\<exists>p q. t = p @ k @ q)"
  proof
    assume "\<exists>p q. c # t = p @ k @ q"
    then obtain p q where pq: "c # t = p @ k @ q" by blast
    show "(\<exists>q. c # t = k @ q) \<or> (\<exists>p q. t = p @ k @ q)"
    proof (cases p)
      case Nil
      with pq show ?thesis by auto
    next
      case (Cons d p')
      with pq have "t = p' @ k @ q" by simp
      then show ?thesis by blast
    qed
  next
    assume "(\<exists>q. c # t = k @ q) \<or> (\<exists>p q. t = p @ k @ q)"
    then show "\<exists>p q. c # t = p @ k @ q"
    proof
      assume "\<exists>q. c # t = k @ q"
      then obtain q where "c # t = [] @ k @ q" by auto
      then show ?thesis by blast
    next
      assume "\<exists>p q. t = p @ k @ q"
      then obtain p q where "c # t = (c # p) @ k @ q" by auto
      then show ?thesis by blast
    qed
  qed
  with Cons show ?case
    by (simp add: take_length_prefix del: take_Suc_Cons)
qed

lemma star_rests_set: "set (star_rests p s) = {t. \<exists>w. list_all p w \<and> s = w @ t}"
proof (induction s)
  case Nil
  show ?case by auto
next
  case (Cons c s)
  have "{t. \<exists>w. list_all p w \<and> c # s = w @ t} =
        (if p c then {t. \<exists>w. list_all p w \<and> s = w @ t} \<union> {c # s} else {c # s})"
    by (auto simp: Cons_eq_append_conv)
  with Cons show ?case by simp
qed

lemma rmatch_lang: "set (rmatch r s) = {t. \<exists>w \<in> lang r. s = w @ t}"
proof (induction r arbitrary: s)
  case Eps
  show ?case by auto
next
  case (One p)
  show ?case by (cases s) auto
next
  case (Star p)
  show ?case by (auto simp: star_rests_set)
next
  case (Seq a b)
  show ?case
  proof (rule set_eqI, rule iffI)
    fix t assume "t \<in> set (rmatch (Seq a b) s)"
    then obtain m where "m \<in> set (rmatch a s)" "t \<in> set (rmatch b m)"
      by auto
    then obtain u v where "u \<in> lang a" "s = u @ m" "v \<in> lang b" "m = v @ t"
      by (auto simp: Seq)
    then have "u @ v \<in> lang (Seq a b)" "s = (u @ v) @ t"
      by auto
    then show "t \<in> {t. \<exists>w \<in> lang (Seq a b). s = w @ t}"
      by blast
  next
    fix t assume "t \<in> {t. \<exists>w \<in> lang (Seq a b). s = w @ t}"
    then obtain u v where uv: "u \<in> lang a" "v \<in> lang b" "s = u @ v @ t"
      by auto
    then have "v @ t \<in> set (rmatch a s)" "t \<in> set (rmatch b (v @ t))"
      by (auto simp: Seq)
    then show "t \<in> set (rmatch (Seq a b) s)"
      by auto
  qed
next
  case (Alt a b)
  then show ?case by auto
qed

lemma lang_literal: "lang (foldr (\<lambda>c r. Seq (One (\<lambda>x. x = c)) r) cs Eps) = {cs}"
  by (induction cs) auto

lemma lang_Chr: "lang (Chr s) = {ascii s}"
  by (simp add: Chr_def lang_literal)

lemma lang_Plus: "lang (Plus p) = {w. w \<noteq> [] \<and> list_all p w}"
proof (rule set_eqI, rule iffI)
  fix w assume "w \<in> lang (Plus p)"
  then obtain c v where "w = [c] @ v" "p c" "list_all p v"
    by (auto simp: Plus_def)
  then show "w \<in> {w. w \<noteq> [] \<and> list_all p w}"
    by simp
next
  fix w assume "w \<in> {w. w \<noteq> [] \<and> list_all p w}"
  then obtain c v where "w = [c] @ v" "[c] \<in> lang (One p)" "v \<in> lang (Star p)"
    by (cases w) auto
  then show "w \<in> lang (Plus p)"
    unfolding Plus_def lang.simps(4) by blast
qed

lemma lang_digits: "lang (Plus (decimal U)) = {w. digits U w}"
  by (simp add: lang_Plus digits_def)

lemma lang_spaces: "lang (Star is_space) = {w. spaces w}"
  by (simp add: spaces_def)

lemma lang_page_form:
  "lang (Seq (Chr ''page'') (Seq (Star is_space) (Plus (decimal U)))) =
     {t. \<exists>ws ds. t = ascii ''page'' @ ws @ ds \<and> spaces ws \<and> digits U ds}"
  by (simp add: lang_Chr lang_digits lang_spaces del: lang.simps(3)) blast

lemma lang_of_form:
  "lang (Seq (Plus (decimal U))
      (Seq (Star is_space) (Seq (Chr ''of'') (Seq (Star is_space) (Plus (decimal U)))))) =
     {t. \<exists>d1 w1 w2 d2. t = d1 @ w1 @ ascii ''of'' @ w2 @ d2 \<and>
        digits U d1 \<and> spaces w1 \<and> spaces w2 \<and> digits U d2}"
  by (simp add: lang_Chr lang_digits lang_spaces del: lang.simps(3)) blast

lemma lang_page_number_pattern: "lang (page_number_pattern U) = {t. page_number_line U t}"
  unfolding page_number_pattern_def lang.simps(5) lang_page_form lang_of_form
  by (auto simp: page_number_line_def)

lemma re_search_anchored_lang:
  "re_search_anchored r s \<longleftrightarrow> s \<in> lang r \<or> (\<exists>w \<in> lang r. s = w @ [10])"
  unfolding re_search_anchored_def list_ex_iff rmatch_lang by auto

lemma str_strip_no_trailing_space:
  "str_strip s \<noteq> [] \<Longrightarrow> \<not> is_space (last (str_strip s))"
proof -
  let ?r = "dropWhile is_space (rev (dropWhile is_space s))"
  assume "str_strip s \<noteq> []"
  then have r: "?r \<noteq> []"
    by (simp add: str_strip_def)
  then have "\<not> is_space (hd ?r)"
    by (rule hd_dropWhile)
  moreover have "last (str_strip s) = hd ?r"
    using r by (simp add: str_strip_def last_rev)
  ultimately show ?thesis by simp
qed

text \<open>
  C6, as amended. A line is junk exactly when its trimmed form is empty, or its
  trimmed and lowered form holds one of the keywords of the denylist, or that form
  is in full ``page'', any run of whitespace (none included) and one or more
  digits, or digits, any run of whitespace, ``of'', any run of whitespace and
  digits.
\<close>

theorem is_junk_iff:
  assumes "lower_wellformed U"
  shows "is_junk U s \<longleftrightarrow>
     str_strip s = [] \<or>
     (\<exists>keyword \<in> set junk_keywords. \<exists>p q. lower U (str_strip s) = p @ keyword @ q) \<or>
     page_number_line U (lower U (str_strip s))"
proof (cases "str_strip s = []")
  case True
  with assms show ?thesis
    by (simp add: is_junk_def lower_wellformed_def)
next
  case False
  let ?t = "lower U (str_strip s)"
  from False assms have t: "?t \<noteq> []"
    by (simp add: lower_wellformed_def)
  from False have "\<not> is_space (last (str_strip s))"
    by (rule str_strip_no_trailing_space)
  with False assms have "last ?t \<noteq> 10"
    by (simp add: lower_wellformed_def)
  then have "\<not> (\<exists>w \<in> lang (page_number_pattern U). ?t = w @ [10])"
    by auto
  then have "re_search_anchored (page_number_pattern U) ?t \<longleftrightarrow> page_number_line U ?t"
    by (simp add: re_search_anchored_lang lang_page_number_pattern)
  with False t show ?thesis
    by (simp add: is_junk_def Let_def list_ex_iff str_contains_iff)
qed


lemma lower_wellformed_ascii_tables: "lower_wellformed ascii_tables"
proof -
  let ?f = "\<lambda>c::nat. if 65 \<le> c \<and> c \<le> 90 then c + 32 else c"
  have "last (map ?f s) \<noteq> 10" if "s \<noteq> []" "\<not> is_space (last s)" for s
  proof -
    from that have "last s \<noteq> 10"
      by (auto simp: is_space_def)
    then have "?f (last s) \<noteq> 10"
      by simp
    with that show ?thesis
      by (simp add: last_map)
  qed
  then show ?thesis
    by (simp add: lower_wellformed_def ascii_tables_def)
qed

lemma page3_lowered: "lower ascii_tables (str_strip (ascii ''page3'')) = ascii ''page3''"
  by (simp add: ascii_tables_def ascii_def str_strip_def is_space_def)

lemma page3_no_keyword:
  "\<not> (\<exists>keyword \<in> set junk_keywords. \<exists>p q. ascii ''page3'' = p @ keyword @ q)"
  unfolding str_contains_iff [symmetric]
  by (simp add: junk_keywords_def ascii_def)

lemma page3_not_spec_form: "\<not> page_number_line_spec ascii_tables (ascii ''page3'')"
  by (auto simp: page_number_line_spec_def digits_def ascii_def ascii_tables_def
      Cons_eq_append_conv)

text \<open>
  The claim as stated fails where the whitespace between the parts is not one
  space: ``page3'' is junk, and it is none of the three cases as the claim words
  them.
\<close>

theorem is_junk_page3_counterexample:
  "is_junk ascii_tables (ascii ''page3'') \<and> \<not> is_junk_spec ascii_tables (ascii ''page3'')"
proof -
  have "is_junk ascii_tables (ascii ''page3'')"
    by (simp add: classifier_unfold ascii_tables_def)
  moreover have "str_strip (ascii ''page3'') \<noteq> []"
    by (simp add: ascii_def str_strip_def is_space_def)
  ultimately show ?thesis
    unfolding is_junk_spec_def page3_lowered
    using page3_no_keyword page3_not_spec_form by simp
qed

theorem is_junk_iff_witness:
  "lower_wellformed ascii_tables \<and>
   page_number_line ascii_tables (lower ascii_tables (str_strip (ascii ''Page  3''))) \<and>
   is_junk ascii_tables (ascii ''Page  3'')"
proof -
  have "lower ascii_tables (str_strip (ascii ''Page  3'')) = ascii ''page'' @ [32, 32] @ [51]"
    by (simp add: ascii_tables_def ascii_def str_strip_def is_space_def)
  moreover have "spaces [32, 32]" "digits ascii_tables [51]"
    by (simp_all add: spaces_def digits_def is_space_def ascii_tables_def)
  ultimately have "page_number_line ascii_tables (lower ascii_tables (str_strip (ascii ''Page  3'')))"
    unfolding page_number_line_def by blast
  then show ?thesis
    using is_junk_iff [OF lower_wellformed_ascii_tables, of "ascii ''Page  3''"]
      lower_wellformed_ascii_tables
    by simp
qed

section \<open>The end-to-end example\<close>

lemma revenue_page_lines:
  "str_split_on 10 revenue_page =
     [ascii ''REVENUE SUMMARY'', ascii ''Total income was 500.'', ascii ''Page 1'',
      ascii ''1. Risks'', ascii ''Risk text here.'']"
  by (simp add: revenue_page_def ascii_def)

lemma revenue_page_strips:
  "str_strip (ascii ''REVENUE SUMMARY'') = ascii ''REVENUE SUMMARY''"
  "str_strip (ascii ''Page 1'') = ascii ''Page 1''"
  "str_strip (ascii ''1. Risks'') = ascii ''1. Risks''"
  "str_strip (ascii ''Total income was 500.'') = ascii ''Total income was 500.''"
  "str_strip (ascii ''Risk text here.'') = ascii ''Risk text here.''"
  "str_strip (ascii '' '' @ ascii ''Total income was 500.'') = ascii ''Total income was 500.''"
  "str_strip (ascii '' '' @ ascii ''Risk text here.'') = ascii ''Risk text here.''"
  "normalize_whitespace (ascii '' '' @ ascii ''Total income was 500.'') =
     ascii ''Total income was 500.''"
  "normalize_whitespace (ascii '' '' @ ascii ''Risk text here.'') = ascii ''Risk text here.''"
  "ascii ''Total income was 500.'' \<noteq> []"
  "ascii ''Risk text here.'' \<noteq> []"
  by (simp_all add: normalize_whitespace_def ascii_def str_strip_def is_space_def
      str_split_word str_split_skip_space str_split_Nil)

lemma revenue_page_sections:
  assumes "ascii_compatible U"
  shows "extract_structured_sections U uuid4 PDF_LIBRARY pdf_path [revenue_page] =
     [\<lparr>id' = uuid4 0, page_number = 1, title = ascii ''REVENUE SUMMARY'',
       text' = ascii ''Total income was 500.'', source = pdf_path\<rparr>,
      \<lparr>id' = uuid4 1, page_number = 1, title = ascii ''1. Risks'',
       text' = ascii ''Risk text here.'', source = pdf_path\<rparr>]"
proof -
  note lines = line_revenue_summary [OF assms] line_total_income [OF assms]
    line_page_1 [OF assms] line_1_risks [OF assms] line_risk_text [OF assms]
  have "structured_data (pages_loop U uuid4 pdf_path initial_locals 0 [revenue_page]) =
     [\<lparr>id' = uuid4 0, page_number = 1, title = ascii ''REVENUE SUMMARY'',
       text' = ascii ''Total income was 500.'', source = pdf_path\<rparr>,
      \<lparr>id' = uuid4 1, page_number = 1, title = ascii ''1. Risks'',
       text' = ascii ''Risk text here.'', source = pdf_path\<rparr>]"
    by (simp add: page_step_def revenue_page_lines page_entry_def page_exit_def line_step_def
        append_section_def new_section_def initial_locals_def lines revenue_page_strips str_strip_Nil)
  then show ?thesis
    by (cases PDF_LIBRARY) (simp_all add: extract_structured_sections_def)
qed


text \<open>
  C1, as amended. The page with the lines ``REVENUE SUMMARY'', ``Total income was
  500.'', ``Page 1'', ``1. Risks'' and ``Risk text here.'' gives exactly two records:
  the first has the title ``REVENUE SUMMARY'' and the text ``Total income was 500.'',
  the second the title ``1. Risks'' and the text ``Risk text here.''. The first
  line is upper case and so a title; ``Page 1'' is in title case, so it is a title
  before it can be junk, and it closes the first section.
\<close>

theorem revenue_page_two_records:
  "ascii_compatible U \<Longrightarrow>
   map (\<lambda>r. (title r, text' r))
     (extract_structured_sections U uuid4 PDF_LIBRARY pdf_path [revenue_page]) =
   [(ascii ''REVENUE SUMMARY'', ascii ''Total income was 500.''),
    (ascii ''1. Risks'', ascii ''Risk text here.'')]"
  by (simp add: revenue_page_sections)

theorem revenue_page_two_records_witness:
  "ascii_compatible ascii_tables \<and>
   map (\<lambda>r. (title r, text' r))
     (extract_structured_sections ascii_tables uuid4_sample Pymupdf (ascii ''policy.pdf'')
        [revenue_page]) =
   [(ascii ''REVENUE SUMMARY'', ascii ''Total income was 500.''),
    (ascii ''1. Risks'', ascii ''Risk text here.'')]"
  using revenue_page_two_records [OF ascii_compatible_ascii_tables]
  by (simp add: ascii_compatible_ascii_tables)

text \<open>
  The claim as stated fails: the first record is not titled ``General
  Information'' and its text does not hold ``REVENUE SUMMARY''.
\<close>

theorem revenue_page_first_record_counterexample:
  "length (extract_structured_sections ascii_tables uuid4_sample Pymupdf (ascii ''policy.pdf'')
      [revenue_page]) = 2 \<and>
   title (extract_structured_sections ascii_tables uuid4_sample Pymupdf (ascii ''policy.pdf'')
      [revenue_page] ! 0) \<noteq> ascii ''General Information'' \<and>
   text' (extract_structured_sections ascii_tables uuid4_sample Pymupdf (ascii ''policy.pdf'')
      [revenue_page] ! 0) \<noteq> ascii ''REVENUE SUMMARY Total income was 500.''"
  by (simp add: revenue_page_sections [OF ascii_compatible_ascii_tables] ascii_def)

section \<open>The accumulator and the driver\<close>

subsection \<open>What a step appends\<close>

lemma line_step_structured_data:
  "structured_data (line_step U uuid4 pdf_path page_num st line) =
     (if is_title U line \<and> str_strip (current_text_block st) \<noteq> []
      then structured_data st @ [new_section uuid4 pdf_path page_num st]
      else structured_data st)"
  by (simp add: line_step_def append_section_def Let_def)

lemma page_exit_structured_data:
  "structured_data (page_exit uuid4 pdf_path page_num st) =
     (if str_strip (current_text_block st) \<noteq> []
      then structured_data st @ [new_section uuid4 pdf_path page_num st]
      else structured_data st)"
  by (simp add: page_exit_def append_section_def)

subsection \<open>Invariants of the loops\<close>

lemma lines_loop_invariant:
  fixes I :: "locals \<Rightarrow> bool"
  assumes app: "\<And>st. I st \<Longrightarrow> str_strip (current_text_block st) \<noteq> [] \<Longrightarrow>
      I (append_section uuid4 pdf_path page_num st)"
    and upd: "\<And>st t b. I st \<Longrightarrow> I (st\<lparr>current_title := t, current_text_block := b\<rparr>)"
      "\<And>st b. I st \<Longrightarrow> I (st\<lparr>current_text_block := b\<rparr>)"
  shows "I st \<Longrightarrow> I (lines_loop U uuid4 pdf_path page_num st lines)"
proof (induction lines arbitrary: st)
  case Nil
  then show ?case by simp
next
  case (Cons line lines)
  from Cons.prems have "I (line_step U uuid4 pdf_path page_num st line)"
    by (simp add: line_step_def Let_def app upd)
  then show ?case
    by (simp add: Cons.IH)
qed

lemma page_step_invariant:
  fixes I :: "locals \<Rightarrow> bool"
  assumes app: "\<And>st. I st \<Longrightarrow> str_strip (current_text_block st) \<noteq> [] \<Longrightarrow>
      I (append_section uuid4 pdf_path page_num st)"
    and upd: "\<And>st t b. I st \<Longrightarrow> I (st\<lparr>current_title := t, current_text_block := b\<rparr>)"
      "\<And>st b. I st \<Longrightarrow> I (st\<lparr>current_text_block := b\<rparr>)"
    and st: "I st"
  shows "I (page_step U uuid4 pdf_path st page_num page_text)"
proof -
  have "I (lines_loop U uuid4 pdf_path page_num (page_entry st) (str_split_on 10 page_text))"
  proof (rule lines_loop_invariant [where I = I])
    show "I (page_entry st)"
      using st by (simp add: page_entry_def upd)
  qed (simp_all add: app upd)
  then show ?thesis
    by (simp add: page_step_def page_exit_def Let_def app)
qed

lemma pages_loop_invariant:
  fixes I :: "locals \<Rightarrow> bool"
  assumes app: "\<And>st page_num. I st \<Longrightarrow> str_strip (current_text_block st) \<noteq> [] \<Longrightarrow>
      I (append_section uuid4 pdf_path page_num st)"
    and upd: "\<And>st t b. I st \<Longrightarrow> I (st\<lparr>current_title := t, current_text_block := b\<rparr>)"
      "\<And>st b. I st \<Longrightarrow> I (st\<lparr>current_text_block := b\<rparr>)"
  shows "I st \<Longrightarrow> I (pages_loop U uuid4 pdf_path st page_num doc)"
proof (induction doc arbitrary: st page_num)
  case Nil
  then show ?case by simp
next
  case (Cons page_text doc)
  from Cons.prems have "I (page_step U uuid4 pdf_path st page_num page_text)"
    by (intro page_step_invariant [where I = I] app upd)
  then show ?case
    by (simp add: Cons.IH)
qed

lemma extract_structured_sections_eq:
  "extract_structured_sections U uuid4 PDF_LIBRARY pdf_path doc =
     structured_data (pages_loop U uuid4 pdf_path initial_locals 0 doc)"
  by (cases PDF_LIBRARY) (simp_all add: extract_structured_sections_def)

lemma normalize_nonempty_block:
  "\<forall>r \<in> set (extract_structured_sections U uuid4 PDF_LIBRARY pdf_path doc).
     \<exists>block. str_strip block \<noteq> [] \<and> text' r = normalize_whitespace block"
proof -
  let ?I = "\<lambda>st :: locals. \<forall>r \<in> set (structured_data st).
     \<exists>block. str_strip block \<noteq> [] \<and> text' r = normalize_whitespace block"
  have "?I (pages_loop U uuid4 pdf_path initial_locals 0 doc)"
  proof (rule pages_loop_invariant [where I = ?I])
    fix st page_num
    assume "?I st" "str_strip (current_text_block st) \<noteq> []"
    then show "?I (append_section uuid4 pdf_path page_num st)"
      by (auto simp: append_section_def new_section_def)
  qed (simp_all add: initial_locals_def)
  then show ?thesis
    by (simp add: extract_structured_sections_eq)
qed


subsection \<open>Two runs side by side\<close>

lemma sans_id_new_section:
  "current_title st = current_title st0 \<Longrightarrow> current_text_block st = current_text_block st0 \<Longrightarrow>
   sans_id (new_section uuid4 pdf_path page_num st) =
   sans_id (new_section uuid4' pdf_path page_num st0)"
  by (simp add: sans_id_def new_section_def)

lemma agree_line_step:
  assumes "agree_sans_id pre st st0"
  shows "agree_sans_id pre (line_step U uuid4 pdf_path page_num st line)
           (line_step U uuid4' pdf_path page_num st0 line)"
proof -
  from assms have eq: "current_title st = current_title st0"
      "current_text_block st = current_text_block st0"
    by (simp_all add: agree_sans_id_def)
  have "map sans_id (structured_data (line_step U uuid4 pdf_path page_num st line)) =
        pre @ map sans_id (structured_data (line_step U uuid4' pdf_path page_num st0 line))"
    using assms sans_id_new_section [OF eq, of uuid4 pdf_path page_num uuid4']
    by (simp add: line_step_structured_data agree_sans_id_def)
  moreover have
    "current_title (line_step U uuid4 pdf_path page_num st line) =
     current_title (line_step U uuid4' pdf_path page_num st0 line)"
    "current_text_block (line_step U uuid4 pdf_path page_num st line) =
     current_text_block (line_step U uuid4' pdf_path page_num st0 line)"
    using eq by (simp_all add: line_step_def Let_def append_section_def)
  ultimately show ?thesis
    by (simp add: agree_sans_id_def)
qed

lemma agree_lines_loop:
  "agree_sans_id pre st st0 \<Longrightarrow>
   agree_sans_id pre (lines_loop U uuid4 pdf_path page_num st lines)
     (lines_loop U uuid4' pdf_path page_num st0 lines)"
proof (induction lines arbitrary: st st0)
  case Nil
  then show ?case by simp
next
  case (Cons line lines)
  from Cons.prems show ?case
    by (simp add: Cons.IH agree_line_step)
qed

lemma agree_page_exit:
  assumes "agree_sans_id pre st st0"
  shows "map sans_id (structured_data (page_exit uuid4 pdf_path page_num st)) =
         pre @ map sans_id (structured_data (page_exit uuid4' pdf_path page_num st0))"
proof -
  from assms have eq: "current_title st = current_title st0"
      "current_text_block st = current_text_block st0"
    by (simp_all add: agree_sans_id_def)
  show ?thesis
    using assms sans_id_new_section [OF eq, of uuid4 pdf_path page_num uuid4']
    by (simp add: page_exit_structured_data agree_sans_id_def)
qed

lemma agree_page_step:
  assumes "map sans_id (structured_data st) = pre @ map sans_id (structured_data st0)"
  shows "map sans_id (structured_data (page_step U uuid4 pdf_path st page_num page_text)) =
         pre @ map sans_id (structured_data (page_step U uuid4' pdf_path st0 page_num page_text))"
proof -
  from assms have "agree_sans_id pre (page_entry st) (page_entry st0)"
    by (simp add: agree_sans_id_def page_entry_def)
  then show ?thesis
    unfolding page_step_def Let_def
    by (intro agree_page_exit agree_lines_loop)
qed

lemma agree_pages_loop:
  "map sans_id (structured_data st) = pre @ map sans_id (structured_data st0) \<Longrightarrow>
   map sans_id (structured_data (pages_loop U uuid4 pdf_path st page_num doc)) =
   pre @ map sans_id (structured_data (pages_loop U uuid4' pdf_path st0 page_num doc))"
proof (induction doc arbitrary: st st0 page_num)
  case Nil
  then show ?case by simp
next
  case (Cons page_text doc)
  from Cons.prems show ?case
    by (simp add: Cons.IH agree_page_step)
qed

lemma page_step_records:
  "map sans_id (structured_data (page_step U uuid4 pdf_path st page_num page_text)) =
   map sans_id (structured_data st) @ page_records U pdf_path page_num page_text"
  unfolding page_records_def
  by (rule agree_page_step) (simp add: initial_locals_def)

subsection \<open>The order of the output\<close>

lemma pages_loop_records:
  "map sans_id (structured_data (pages_loop U uuid4 pdf_path st (int m) doc)) =
   map sans_id (structured_data st) @
   concat (map (\<lambda>(k, page_text). page_records U pdf_path (int k) page_text) (enumerate m doc))"
proof (induction doc arbitrary: st m)
  case Nil
  show ?case by simp
next
  case (Cons page_text doc)
  have "pages_loop U uuid4 pdf_path st (int m) (page_text # doc) =
        pages_loop U uuid4 pdf_path (page_step U uuid4 pdf_path st (int m) page_text)
          (int (Suc m)) doc"
    by (simp add: add.commute)
  then show ?case
    by (simp only: Cons.IH page_step_records enumerate_simps list.map concat.simps
        prod.case append_assoc)
qed

lemma page_records_page_number:
  "r \<in> set (page_records U pdf_path page_num page_text) \<Longrightarrow> fst r = page_num + 1"
proof -
  let ?I = "\<lambda>st :: locals. \<forall>r \<in> set (structured_data st). page_number r = page_num + 1"
  have "?I (page_step U (\<lambda>k. []) pdf_path initial_locals page_num page_text)"
    by (rule page_step_invariant [where I = ?I])
      (auto simp: append_section_def new_section_def initial_locals_def)
  moreover assume "r \<in> set (page_records U pdf_path page_num page_text)"
  ultimately show ?thesis
    by (auto simp: page_records_def sans_id_def)
qed

lemma concat_page_records_sorted:
  "sorted (map fst (concat (map (\<lambda>(k, page_text). page_records U pdf_path (int k) page_text)
       (enumerate m doc)))) \<and>
   (\<forall>r \<in> set (concat (map (\<lambda>(k, page_text). page_records U pdf_path (int k) page_text)
       (enumerate m doc))). int m + 1 \<le> fst r)"
proof (induction doc arbitrary: m)
  case Nil
  show ?case by simp
next
  case (Cons page_text doc)
  have here: "\<forall>r \<in> set (page_records U pdf_path (int m) page_text). fst r = int m + 1"
    by (simp add: page_records_page_number)
  then have "sorted (map fst (page_records U pdf_path (int m) page_text))"
    by (simp add: sorted_wrt_iff_nth_less nth_mem)
  with here Cons [of "Suc m"] show ?case
    by (fastforce simp: sorted_append)
qed

lemma ids_in_call_order:
  "map id' (extract_structured_sections U uuid4 PDF_LIBRARY pdf_path doc) =
   map uuid4 [0..<length (extract_structured_sections U uuid4 PDF_LIBRARY pdf_path doc)]"
proof -
  let ?I = "\<lambda>st :: locals. uuid_calls st = length (structured_data st) \<and>
     map id' (structured_data st) = map uuid4 [0..<length (structured_data st)]"
  have "?I (pages_loop U uuid4 pdf_path initial_locals 0 doc)"
    by (rule pages_loop_invariant [where I = ?I])
      (simp_all add: append_section_def new_section_def initial_locals_def)
  then show ?thesis
    by (simp add: extract_structured_sections_eq)
qed

lemma sans_id_page_number: "map page_number rs = map fst (map sans_id rs)"
  by (simp add: sans_id_def)

lemma extract_records:
  "map sans_id (extract_structured_sections U uuid4 PDF_LIBRARY pdf_path doc) =
   concat (map (\<lambda>(k, page_text). page_records U pdf_path (int k) page_text) (enumerate 0 doc))"
  using pages_loop_records [of U uuid4 pdf_path initial_locals 0 doc]
  by (simp add: extract_structured_sections_eq initial_locals_def)

lemma extract_sans_id_deterministic:
  "map sans_id (extract_structured_sections U uuid4 PDF_LIBRARY pdf_path doc) =
   map sans_id (extract_structured_sections U uuid4' PDF_LIBRARY pdf_path doc)"
  by (simp add: extract_records)

text \<open>
  C10. For a fixed path and fixed page texts, two runs that differ only in the
  identifiers drawn give lists of the same length whose records agree, position by
  position, on \<^verbatim>\<open>page_number\<close>, \<^verbatim>\<open>title\<close>, \<^verbatim>\<open>text\<close> and \<^verbatim>\<open>source\<close>.
\<close>

theorem deterministic_up_to_id:
  "length (extract_structured_sections U uuid4 PDF_LIBRARY pdf_path doc) =
   length (extract_structured_sections U uuid4' PDF_LIBRARY pdf_path doc) \<and>
   (\<forall>i < length (extract_structured_sections U uuid4 PDF_LIBRARY pdf_path doc).
      page_number (extract_structured_sections U uuid4 PDF_LIBRARY pdf_path doc ! i) =
      page_number (extract_structured_sections U uuid4' PDF_LIBRARY pdf_path doc ! i) \<and>
      title (extract_structured_sections U uuid4 PDF_LIBRARY pdf_path doc ! i) =
      title (extract_structured_sections U uuid4' PDF_LIBRARY pdf_path doc ! i) \<and>
      text' (extract_structured_sections U uuid4 PDF_LIBRARY pdf_path doc ! i) =
      text' (extract_structured_sections U uuid4' PDF_LIBRARY pdf_path doc ! i) \<and>
      source (extract_structured_sections U uuid4 PDF_LIBRARY pdf_path doc ! i) =
      source (extract_structured_sections U uuid4' PDF_LIBRARY pdf_path doc ! i))"
proof -
  let ?a = "extract_structured_sections U uuid4 PDF_LIBRARY pdf_path doc"
  let ?b = "extract_structured_sections U uuid4' PDF_LIBRARY pdf_path doc"
  have eq: "map sans_id ?a = map sans_id ?b"
    by (rule extract_sans_id_deterministic)
  then have len: "length ?a = length ?b"
    by (rule map_eq_imp_length_eq)
  have "sans_id (?a ! i) = sans_id (?b ! i)" if "i < length ?a" for i
    using that eq len by (metis nth_map)
  with len show ?thesis
    by (simp add: sans_id_def)
qed

subsection \<open>Concrete runs\<close>

text \<open>
  C3. A record is appended only when the block is non-empty after trimming: a title
  line appends the pending section exactly when the block trims to something, the
  end of a page likewise, and otherwise the output is left as it is (a title whose
  block is empty or blank gives no record). Hence the text of every record of the
  output is the normal form of a block that is not blank.
\<close>

theorem record_only_for_nonempty_block:
  "structured_data (line_step U uuid4 pdf_path page_num st line) =
     (if is_title U line \<and> str_strip (current_text_block st) \<noteq> []
      then structured_data st @ [new_section uuid4 pdf_path page_num st]
      else structured_data st) \<and>
   structured_data (page_exit uuid4 pdf_path page_num st) =
     (if str_strip (current_text_block st) \<noteq> []
      then structured_data st @ [new_section uuid4 pdf_path page_num st]
      else structured_data st) \<and>
   (\<forall>r \<in> set (extract_structured_sections U uuid4 PDF_LIBRARY pdf_path doc).
      \<exists>block. str_strip block \<noteq> [] \<and> text' r = normalize_whitespace block)"
  using line_step_structured_data page_exit_structured_data normalize_nonempty_block
  by simp

theorem record_only_for_nonempty_block_witness:
  "structured_data
     (line_step ascii_tables uuid4_sample (ascii ''policy.pdf'') 0
        (initial_locals\<lparr>current_text_block := ascii ''   ''\<rparr>) (ascii ''1. Risks'')) = [] \<and>
   structured_data
     (page_exit uuid4_sample (ascii ''policy.pdf'') 0
        (initial_locals\<lparr>current_text_block := ascii ''   ''\<rparr>)) = [] \<and>
   (\<exists>block. str_strip block \<noteq> [] \<and>
      ascii ''Total income was 500.'' = normalize_whitespace block)"
proof -
  have blank: "str_strip (ascii ''   '') = []"
    by (simp add: ascii_def str_strip_def is_space_def)
  show ?thesis
    using record_only_for_nonempty_block [of ascii_tables uuid4_sample "ascii ''policy.pdf''" 0
        "initial_locals\<lparr>current_text_block := ascii ''   ''\<rparr>" "ascii ''1. Risks''"
        Pymupdf "[revenue_page]"]
    by (simp add: blank initial_locals_def
        revenue_page_sections [OF ascii_compatible_ascii_tables])
qed

theorem deterministic_up_to_id_witness:
  "length (extract_structured_sections ascii_tables uuid4_sample Pymupdf (ascii ''policy.pdf'')
      [revenue_page]) =
   length (extract_structured_sections ascii_tables uuid4_other Pymupdf (ascii ''policy.pdf'')
      [revenue_page]) \<and>
   (0::nat) < length (extract_structured_sections ascii_tables uuid4_sample Pymupdf
      (ascii ''policy.pdf'') [revenue_page]) \<and>
   title (extract_structured_sections ascii_tables uuid4_sample Pymupdf (ascii ''policy.pdf'')
      [revenue_page] ! 0) =
   title (extract_structured_sections ascii_tables uuid4_other Pymupdf (ascii ''policy.pdf'')
      [revenue_page] ! 0) \<and>
   text' (extract_structured_sections ascii_tables uuid4_sample Pymupdf (ascii ''policy.pdf'')
      [revenue_page] ! 0) =
   text' (extract_structured_sections ascii_tables uuid4_other Pymupdf (ascii ''policy.pdf'')
      [revenue_page] ! 0) \<and>
   id' (extract_structured_sections ascii_tables uuid4_sample Pymupdf (ascii ''policy.pdf'')
      [revenue_page] ! 0) \<noteq>
   id' (extract_structured_sections ascii_tables uuid4_other Pymupdf (ascii ''policy.pdf'')
      [revenue_page] ! 0)"
proof -
  have len: "(0::nat) < length (extract_structured_sections ascii_tables uuid4_sample Pymupdf
      (ascii ''policy.pdf'') [revenue_page])"
    by (simp add: revenue_page_sections [OF ascii_compatible_ascii_tables])
  have ids: "id' (extract_structured_sections ascii_tables uuid4_sample Pymupdf
        (ascii ''policy.pdf'') [revenue_page] ! 0) \<noteq>
      id' (extract_structured_sections ascii_tables uuid4_other Pymupdf
        (ascii ''policy.pdf'') [revenue_page] ! 0)"
    by (simp add: revenue_page_sections [OF ascii_compatible_ascii_tables]
        uuid4_sample_def uuid4_other_def ascii_def)
  from deterministic_up_to_id [of ascii_tables uuid4_sample Pymupdf "ascii ''policy.pdf''"
      "[revenue_page]" uuid4_other] len ids
  show ?thesis
    by blast
qed

section \<open>The classifiers on Python values\<close>

lemma py_any_contains_Str:
  "py_any_contains ks (Str s) = Inr (Bool (list_ex (\<lambda>keyword. str_contains keyword s) ks))"
  by (induction ks) (simp_all add: py_bind_def)

text \<open>
  C9. On every string, the empty one and strings of any length included, each
  classifier returns a boolean and raises nothing: in the bodies run on Python
  values, where every operation raises on an operand of the wrong type, a string
  argument reaches a \<^verbatim>\<open>return\<close> of \<^verbatim>\<open>True\<close> or \<^verbatim>\<open>False\<close> on every path, and the
  boolean is the one that the typed classifier computes.
\<close>

theorem classifiers_return_bool_on_strings:
  "is_title_dyn U (Str line) = Inr (Bool (is_title U line)) \<and>
   is_junk_dyn U (Str line) = Inr (Bool (is_junk U line))"
  by (simp add: is_title_dyn_def is_junk_dyn_def is_title_def is_junk_def py_bind_def Let_def
      py_any_contains_Str)

text \<open>On a value that is no string the first statement raises.\<close>

lemma classifiers_raise_on_other_values:
  "is_title_dyn U NoneValue = Inl AttributeError"
  "is_junk_dyn U (Num 3) = Inl AttributeError"
  by (simp_all add: is_title_dyn_def is_junk_dyn_def py_bind_def)

section \<open>The accumulator of the specification\<close>

lemma sans_id_new_section_eq:
  "sans_id (new_section uuid4 pdf_path page_num st) =
     (page_num + 1, current_title st, normalize_whitespace (current_text_block st), pdf_path)"
  by (simp add: sans_id_def new_section_def)

lemma line_step_title_block:
  "current_title (line_step U uuid4 pdf_path page_num st line) =
     (if is_title U line then str_strip line else current_title st)"
  "current_text_block (line_step U uuid4 pdf_path page_num st line) =
     (if is_title U line then []
      else if \<not> is_junk U line then current_text_block st @ ascii '' '' @ str_strip line
      else current_text_block st)"
  by (simp_all add: line_step_def Let_def append_section_def)

lemma page_exit_lines_loop_spec:
  "map sans_id
     (structured_data (page_exit uuid4 pdf_path page_num
        (lines_loop U uuid4 pdf_path page_num st lines))) =
   map sans_id (structured_data st) @
   map (\<lambda>(section_title, section_text). (page_num + 1, section_title, section_text, pdf_path))
     (accumulator_spec U (current_title st) (current_text_block st) lines)"
proof (induction lines arbitrary: st)
  case Nil
  show ?case
    by (simp add: page_exit_structured_data sans_id_new_section_eq)
next
  case (Cons line lines)
  let ?st = "line_step U uuid4 pdf_path page_num st line"
  have "map sans_id
     (structured_data (page_exit uuid4 pdf_path page_num
        (lines_loop U uuid4 pdf_path page_num st (line # lines)))) =
     map sans_id (structured_data ?st) @
     map (\<lambda>(section_title, section_text). (page_num + 1, section_title, section_text, pdf_path))
       (accumulator_spec U (current_title ?st) (current_text_block ?st) lines)"
    by (simp only: lines_loop.simps Cons.IH)
  then show ?case
    by (simp add: line_step_structured_data line_step_title_block sans_id_new_section_eq)
qed

lemma page_records_spec:
  "page_records U pdf_path page_num page_text = page_sections_spec U pdf_path page_num page_text"
  by (simp add: page_records_def page_sections_spec_def page_step_def Let_def
      page_exit_lines_loop_spec page_entry_def initial_locals_def)

lemma pages_loop_append:
  "pages_loop U uuid4 pdf_path st page_num (xs @ ys) =
   pages_loop U uuid4 pdf_path (pages_loop U uuid4 pdf_path st page_num xs)
     (page_num + int (length xs)) ys"
  by (induction xs arbitrary: st page_num) (simp_all add: algebra_simps)

text \<open>
  C4. The title and the block never cross a page boundary. Whatever state \<open>st\<close> the
  page loop starts from and whatever the pages before page \<open>k\<close> left behind, the
  page loop runs the line loop of page \<open>k\<close> from the state it has reached with the
  title set to ``General Information'' and the block emptied, and goes on from the
  result. So the records that the loop adds are, page by page, those that the
  accumulator of the specification emits from the default title and an empty
  block; the state carried in has no part in them.
\<close>

theorem page_state_reset:
  assumes "k < length doc"
  shows "pages_loop U uuid4 pdf_path st (int m) (take (Suc k) doc) =
     page_exit uuid4 pdf_path (int (m + k))
       (lines_loop U uuid4 pdf_path (int (m + k))
          ((pages_loop U uuid4 pdf_path st (int m) (take k doc))
             \<lparr>current_title := ascii ''General Information'', current_text_block := []\<rparr>)
          (str_split_on 10 (doc ! k))) \<and>
   pages_loop U uuid4 pdf_path st (int m) doc =
     pages_loop U uuid4 pdf_path (pages_loop U uuid4 pdf_path st (int m) (take (Suc k) doc))
       (int (m + Suc k)) (drop (Suc k) doc) \<and>
   map sans_id (structured_data (pages_loop U uuid4 pdf_path st (int m) doc)) =
     map sans_id (structured_data st) @
     concat (map (\<lambda>(i, page_text). page_sections_spec U pdf_path (int i) page_text)
       (enumerate m doc))"
proof -
  from assms have tk: "take (Suc k) doc = take k doc @ [doc ! k]"
    by (rule take_Suc_conv_app_nth)
  from assms have lk: "length (take k doc) = k"
    by simp
  have "pages_loop U uuid4 pdf_path st (int m) (take (Suc k) doc) =
     page_step U uuid4 pdf_path (pages_loop U uuid4 pdf_path st (int m) (take k doc))
       (int m + int k) (doc ! k)"
    unfolding tk pages_loop_append lk by simp
  then have a: "pages_loop U uuid4 pdf_path st (int m) (take (Suc k) doc) =
     page_exit uuid4 pdf_path (int (m + k))
       (lines_loop U uuid4 pdf_path (int (m + k))
          ((pages_loop U uuid4 pdf_path st (int m) (take k doc))
             \<lparr>current_title := ascii ''General Information'', current_text_block := []\<rparr>)
          (str_split_on 10 (doc ! k)))"
    by (simp add: page_step_def Let_def page_entry_def)
  from assms have len: "int m + int (length (take (Suc k) doc)) = int (m + Suc k)"
    by simp
  have b: "pages_loop U uuid4 pdf_path st (int m) doc =
     pages_loop U uuid4 pdf_path (pages_loop U uuid4 pdf_path st (int m) (take (Suc k) doc))
       (int (m + Suc k)) (drop (Suc k) doc)"
    using pages_loop_append [of U uuid4 pdf_path st "int m" "take (Suc k) doc" "drop (Suc k) doc"]
    by (simp only: len append_take_drop_id)
  have c: "map sans_id (structured_data (pages_loop U uuid4 pdf_path st (int m) doc)) =
     map sans_id (structured_data st) @
     concat (map (\<lambda>(i, page_text). page_sections_spec U pdf_path (int i) page_text)
       (enumerate m doc))"
    by (simp add: pages_loop_records page_records_spec)
  from a b c show ?thesis
    by blast
qed

text \<open>
  C5. The output is, page after page in the order of the document, the sections
  that the accumulator of the specification emits for the page, in the order in
  which it emits them and as often as it emits them: nothing is reordered, dropped
  or merged, within a page or across pages. The page numbers never decrease along
  the output, and the record at position \<open>k\<close> carries the identifier of the \<open>k\<close>-th
  call of \<^verbatim>\<open>uuid4\<close>, so positions follow the order of emission.
\<close>

theorem output_in_page_then_emission_order:
  "map sans_id (extract_structured_sections U uuid4 PDF_LIBRARY pdf_path doc) =
     concat (map (\<lambda>(k, page_text). page_sections_spec U pdf_path (int k) page_text)
       (enumerate 0 doc)) \<and>
   sorted (map page_number (extract_structured_sections U uuid4 PDF_LIBRARY pdf_path doc)) \<and>
   map id' (extract_structured_sections U uuid4 PDF_LIBRARY pdf_path doc) =
     map uuid4 [0..<length (extract_structured_sections U uuid4 PDF_LIBRARY pdf_path doc)]"
  using concat_page_records_sorted [of U pdf_path 0 doc] ids_in_call_order
  by (simp add: sans_id_page_number extract_records page_records_spec)


subsection \<open>Runs with a carried state and with a repeated section\<close>

lemma line_notes: "ascii_compatible U \<Longrightarrow> is_title U (ascii ''NOTES'')"
  by (simp add: classifier_unfold ascii_compatible_tables)

lemma line_see_annex:
  "ascii_compatible U \<Longrightarrow>
   \<not> is_title U (ascii ''see annex'') \<and> \<not> is_junk U (ascii ''see annex'')"
  by (simp add: classifier_unfold ascii_compatible_tables ascii_compatible_lower)

lemma annex_page_lines:
  "str_split_on 10 annex_page =
     [ascii ''NOTES'', ascii ''see annex'', ascii ''NOTES'', ascii ''see annex'']"
  "str_split_on 10 plain_page = [ascii ''see annex'']"
  by (simp_all add: annex_page_def plain_page_def ascii_def)

lemma annex_page_strips:
  "str_strip (ascii ''NOTES'') = ascii ''NOTES''"
  "str_strip (ascii ''see annex'') = ascii ''see annex''"
  "str_strip (ascii '' '' @ ascii ''see annex'') = ascii ''see annex''"
  "normalize_whitespace (ascii '' '' @ ascii ''see annex'') = ascii ''see annex''"
  "ascii ''see annex'' \<noteq> []"
  by (simp_all add: normalize_whitespace_def ascii_def str_strip_def is_space_def
      str_split_word str_split_skip_space str_split_Nil)

lemma annex_page_spec:
  assumes "ascii_compatible U"
  shows "page_sections_spec U pdf_path page_num annex_page =
     [(page_num + 1, ascii ''NOTES'', ascii ''see annex'', pdf_path),
      (page_num + 1, ascii ''NOTES'', ascii ''see annex'', pdf_path)]"
    and "page_sections_spec U pdf_path page_num plain_page =
     [(page_num + 1, ascii ''General Information'', ascii ''see annex'', pdf_path)]"
  by (simp_all add: page_sections_spec_def annex_page_lines annex_page_strips str_strip_Nil
      line_notes [OF assms] line_see_annex [OF assms])

lemma revenue_page_spec:
  assumes "ascii_compatible U"
  shows "page_sections_spec U pdf_path page_num revenue_page =
     [(page_num + 1, ascii ''REVENUE SUMMARY'', ascii ''Total income was 500.'', pdf_path),
      (page_num + 1, ascii ''1. Risks'', ascii ''Risk text here.'', pdf_path)]"
  by (simp add: page_sections_spec_def revenue_page_lines revenue_page_strips str_strip_Nil
      line_revenue_summary [OF assms] line_total_income [OF assms] line_page_1 [OF assms]
      line_1_risks [OF assms] line_risk_text [OF assms])

lemma revenue_page_leaves:
  assumes "ascii_compatible U"
  shows "current_title (page_step U uuid4 pdf_path initial_locals 0 revenue_page) =
       ascii ''1. Risks''"
    and "current_text_block (page_step U uuid4 pdf_path initial_locals 0 revenue_page) =
       ascii '' '' @ ascii ''Risk text here.''"
  by (simp_all add: page_step_def revenue_page_lines page_entry_def page_exit_def line_step_def
      append_section_def new_section_def initial_locals_def revenue_page_strips str_strip_Nil
      line_revenue_summary [OF assms] line_total_income [OF assms] line_page_1 [OF assms]
      line_1_risks [OF assms] line_risk_text [OF assms])

theorem page_state_reset_witness:
  "(1::nat) < length [revenue_page, plain_page] \<and>
   current_title
     (pages_loop ascii_tables uuid4_sample (ascii ''policy.pdf'') initial_locals 0
        (take 1 [revenue_page, plain_page])) = ascii ''1. Risks'' \<and>
   current_text_block
     (pages_loop ascii_tables uuid4_sample (ascii ''policy.pdf'') initial_locals 0
        (take 1 [revenue_page, plain_page])) = ascii '' '' @ ascii ''Risk text here.'' \<and>
   map sans_id
     (structured_data
        (pages_loop ascii_tables uuid4_sample (ascii ''policy.pdf'') initial_locals 0
           [revenue_page, plain_page])) =
   [(1, ascii ''REVENUE SUMMARY'', ascii ''Total income was 500.'', ascii ''policy.pdf''),
    (1, ascii ''1. Risks'', ascii ''Risk text here.'', ascii ''policy.pdf''),
    (2, ascii ''General Information'', ascii ''see annex'', ascii ''policy.pdf'')]"
proof -
  have k: "(1::nat) < length [revenue_page, plain_page]"
    by simp
  from page_state_reset [OF k, of ascii_tables uuid4_sample "ascii ''policy.pdf''"
      initial_locals 0]
  have "map sans_id
     (structured_data
        (pages_loop ascii_tables uuid4_sample (ascii ''policy.pdf'') initial_locals (int 0)
           [revenue_page, plain_page])) =
     map sans_id (structured_data initial_locals) @
     concat (map (\<lambda>(i, page_text).
         page_sections_spec ascii_tables (ascii ''policy.pdf'') (int i) page_text)
       (enumerate 0 [revenue_page, plain_page]))"
    by blast
  then have "map sans_id
     (structured_data
        (pages_loop ascii_tables uuid4_sample (ascii ''policy.pdf'') initial_locals 0
           [revenue_page, plain_page])) =
   [(1, ascii ''REVENUE SUMMARY'', ascii ''Total income was 500.'', ascii ''policy.pdf''),
    (1, ascii ''1. Risks'', ascii ''Risk text here.'', ascii ''policy.pdf''),
    (2, ascii ''General Information'', ascii ''see annex'', ascii ''policy.pdf'')]"
    by (simp add: initial_locals_def
        revenue_page_spec [OF ascii_compatible_ascii_tables]
        annex_page_spec [OF ascii_compatible_ascii_tables] del: pages_loop.simps)
  then show ?thesis
    by (simp add: revenue_page_leaves [OF ascii_compatible_ascii_tables])
qed

theorem output_in_page_then_emission_order_witness:
  "map sans_id
     (extract_structured_sections ascii_tables uuid4_sample Pymupdf (ascii ''policy.pdf'')
        [annex_page, annex_page]) =
   [(1, ascii ''NOTES'', ascii ''see annex'', ascii ''policy.pdf''),
    (1, ascii ''NOTES'', ascii ''see annex'', ascii ''policy.pdf''),
    (2, ascii ''NOTES'', ascii ''see annex'', ascii ''policy.pdf''),
    (2, ascii ''NOTES'', ascii ''see annex'', ascii ''policy.pdf'')]"
  using output_in_page_then_emission_order [of ascii_tables uuid4_sample Pymupdf
      "ascii ''policy.pdf''" "[annex_page, annex_page]"]
  by (simp add: annex_page_spec [OF ascii_compatible_ascii_tables])

end
